theory Spec2Isabelle
  imports Main "HOL-Library.Word"
begin

section \<open>JavaScript strings\<close>

text \<open>
  A JavaScript string is a sequence of UTF-16 code units. \<open>length\<close>, \<open>charAt\<close>,
  \<open>slice\<close>, \<open>split\<close> and the regular expressions of \<^verbatim>\<open>src/ai.js\<close> (none of which
  carries the \<^verbatim>\<open>u\<close> flag) all count and compare code units, so a string is modelled
  as a list of 16-bit words. \<open>lit\<close> embeds an ASCII literal of the source.
\<close>

type_synonym jschar = "16 word"
type_synonym jsstring = "jschar list"

definition lit :: "string \<Rightarrow> jsstring" where
  "lit s = map of_char s"

text \<open>
  The class \<^verbatim>\<open>\s\<close> of a JavaScript regular expression, which is also the set that
  \<^verbatim>\<open>String.prototype.trim\<close> strips: the WhiteSpace and LineTerminator code points.
\<close>

definition isWhiteSpace :: "jschar \<Rightarrow> bool" where
  "isWhiteSpace c \<longleftrightarrow>
     c = 0x09 \<or> c = 0x0A \<or> c = 0x0B \<or> c = 0x0C \<or> c = 0x0D \<or> c = 0x20 \<or> c = 0xA0 \<or>
     c = 0x1680 \<or> (0x2000 \<le> c \<and> c \<le> 0x200A) \<or> c = 0x2028 \<or> c = 0x2029 \<or>
     c = 0x202F \<or> c = 0x205F \<or> c = 0x3000 \<or> c = 0xFEFF"

text \<open>The code units that \<^verbatim>\<open>.\<close> does not match (no \<^verbatim>\<open>s\<close> flag is used).\<close>

definition isLineTerminator :: "jschar \<Rightarrow> bool" where
  "isLineTerminator c \<longleftrightarrow> c = 0x0A \<or> c = 0x0D \<or> c = 0x2028 \<or> c = 0x2029"

text \<open>The class \<^verbatim>\<open>\d\<close>.\<close>

definition isDigit :: "jschar \<Rightarrow> bool" where
  "isDigit c \<longleftrightarrow> 0x30 \<le> c \<and> c \<le> 0x39"

definition trim :: "jsstring \<Rightarrow> jsstring" where
  "trim s = rev (dropWhile isWhiteSpace (rev (dropWhile isWhiteSpace s)))"

text \<open>
  \<^verbatim>\<open>s.split(/\s+/)\<close>: the pieces between maximal runs of whitespace. A leading or a
  trailing run leaves an empty piece at that end, and the empty string gives \<^verbatim>\<open>[""]\<close>.
\<close>

function splitWs :: "jsstring \<Rightarrow> jsstring list" where
  "splitWs s =
     (let tok = takeWhile (\<lambda>c. \<not> isWhiteSpace c) s;
          rest = dropWhile (\<lambda>c. \<not> isWhiteSpace c) s
      in if rest = [] then [tok] else tok # splitWs (dropWhile isWhiteSpace rest))"
  by pat_completeness auto
termination
proof (relation "measure length", goal_cases)
  case 1
  show ?case by simp
next
  case (2 s tok rest)
  define r where "r = dropWhile (\<lambda>c. \<not> isWhiteSpace c) s"
  from 2 have "r \<noteq> []" by (simp add: r_def)
  then obtain c cs where r: "r = c # cs" by (cases r) auto
  have "\<not> \<not> isWhiteSpace (hd r)"
    unfolding r_def using \<open>r \<noteq> []\<close> [unfolded r_def] by (rule hd_dropWhile)
  then have "isWhiteSpace c" by (simp add: r)
  then have "length (dropWhile isWhiteSpace r) \<le> length cs"
    using length_dropWhile_le [of isWhiteSpace cs] by (simp add: r)
  moreover have "length r \<le> length s"
    unfolding r_def by (rule length_dropWhile_le)
  ultimately have "length (dropWhile isWhiteSpace r) < length s" by (simp add: r)
  then show ?case using 2 by (simp add: r_def)
qed

declare splitWs.simps [simp del]

text \<open>\<^verbatim>\<open>s.split('\n')\<close> and \<^verbatim>\<open>s.split(',')\<close>: splitting at one code unit.\<close>

fun splitOn :: "jschar \<Rightarrow> jsstring \<Rightarrow> jsstring list" where
  "splitOn d [] = [[]]"
| "splitOn d (c # cs) =
     (if c = d then [] # splitOn d cs
      else (case splitOn d cs of t # ts \<Rightarrow> (c # t) # ts | [] \<Rightarrow> [[c]]))"

text \<open>
  \<^verbatim>\<open>toLowerCase\<close> and \<^verbatim>\<open>toUpperCase\<close> are built into the engine and follow the Unicode
  case tables, which are no part of the repository: they are parameters of the
  model. \<open>asciiRuntime\<close> is the instance used to evaluate the model on ASCII text,
  where it agrees with every engine.
\<close>

record runtime =
  toLowerCase :: "jsstring \<Rightarrow> jsstring"
  toUpperCase :: "jsstring \<Rightarrow> jsstring"

definition asciiLower :: "jschar \<Rightarrow> jschar" where
  "asciiLower c = (if 0x41 \<le> c \<and> c \<le> 0x5A then c + 0x20 else c)"

definition asciiUpper :: "jschar \<Rightarrow> jschar" where
  "asciiUpper c = (if 0x61 \<le> c \<and> c \<le> 0x7A then c - 0x20 else c)"

definition asciiRuntime :: runtime where
  "asciiRuntime = \<lparr> toLowerCase = map asciiLower, toUpperCase = map asciiUpper \<rparr>"

section \<open>The word-repetition filter\<close>

text \<open>
  \<^verbatim>\<open>wordCounts\<close> is an object literal \<^verbatim>\<open>{}\<close>, so a lookup of a name that
  \<^verbatim>\<open>Object.prototype\<close> defines finds the inherited value instead of \<^verbatim>\<open>undefined\<close>.
  A lower-cased token can only hit the two all-lower-case names. For both the
  inherited value is a truthy object, \<^verbatim>\<open>(wordCounts[word] || 0) + 1\<close> is a string, and
  the comparison \<^verbatim>\<open>>= 3\<close> of that string is false at every occurrence.
\<close>

definition inheritedName :: "jsstring \<Rightarrow> bool" where
  "inheritedName w \<longleftrightarrow> w = lit ''constructor'' \<or> w = lit ''__proto__''"

text \<open>The first loop of \<^verbatim>\<open>hasWordRepetition\<close>; the map holds the own numeric counts.\<close>

fun countWords :: "(jsstring \<rightharpoonup> nat) \<Rightarrow> jsstring list \<Rightarrow> bool" where
  "countWords m [] = False"
| "countWords m (w # ws) =
     (if length w < 3 then countWords m ws
      else if inheritedName w then countWords m ws
      else
        (let n = (case m w of None \<Rightarrow> 0 | Some k \<Rightarrow> k) + 1
         in if n \<ge> 3 then True else countWords (m(w \<mapsto> n)) ws))"

text \<open>The second loop: \<^verbatim>\<open>for (let i = 0; i < words.length - 3; i++)\<close>.\<close>

function bigramLoop :: "jsstring list \<Rightarrow> nat \<Rightarrow> bool" where
  "bigramLoop ws i =
     (if int i < int (length ws) - 3 then
        (let bigram = ws ! i @ lit '' '' @ ws ! (i + 1);
             nextBigram = ws ! (i + 2) @ lit '' '' @ ws ! (i + 3)
         in if bigram = nextBigram then True else bigramLoop ws (i + 1))
      else False)"
  by pat_completeness auto
termination
  by (relation "measure (\<lambda>(ws, i). length ws - i)") auto

declare bigramLoop.simps [simp del]

definition hasWordRepetition :: "runtime \<Rightarrow> jsstring \<Rightarrow> bool" where
  "hasWordRepetition rt text =
     (let ws = splitWs (toLowerCase rt text)
      in if length ws < 4 then False
         else if countWords Map.empty ws then True
         else bigramLoop ws 0)"

text \<open>
  The filter as the specification words it, on a list of tokens: some token of
  length at least 3 occurs 3 or more times, or two adjacent two-token windows are
  identical.
\<close>

definition spec_wordRepetition :: "jsstring list \<Rightarrow> bool" where
  "spec_wordRepetition ws \<longleftrightarrow>
     (\<exists>w \<in> set ws. 3 \<le> length w \<and> 3 \<le> count_list ws w) \<or>
     (\<exists>i \<in> {0 ..< length ws - 3}. ws ! i = ws ! (i + 2) \<and> ws ! (i + 1) = ws ! (i + 3))"

section \<open>Regular expressions of the validators\<close>

text \<open>
  Matching under the \<^verbatim>\<open>i\<close> flag (without \<^verbatim>\<open>u\<close>) compares the canonical forms of
  two code units: the upper-case mapping, except that a code unit outside ASCII
  never takes an ASCII canonical form. The patterns of the source consist of ASCII
  characters and of U+00E9, whose only partner is U+00C9. \<open>ciFold\<close> sends each
  code unit that matches a pattern character to that character written in lower
  case, and no other code unit to one.
\<close>

definition ciFold :: "jschar \<Rightarrow> jschar" where
  "ciFold c = (if 0x41 \<le> c \<and> c \<le> 0x5A then c + 0x20 else if c = 0xC9 then 0xE9 else c)"

text \<open>A literal pattern (given in lower case) matches at the start of \<open>s\<close>.\<close>

definition ciPrefix :: "jsstring \<Rightarrow> jsstring \<Rightarrow> bool" where
  "ciPrefix p s \<longleftrightarrow> length p \<le> length s \<and> map ciFold (take (length p) s) = p"

text \<open>An unanchored pattern is tried at every position, the end included.\<close>

fun hasMatch :: "(jsstring \<Rightarrow> bool) \<Rightarrow> jsstring \<Rightarrow> bool" where
  "hasMatch P [] = P []"
| "hasMatch P (c # cs) = (P (c # cs) \<or> hasMatch P cs)"

text \<open>
  \<^verbatim>\<open>/(.)\1{n,}/\<close>: a code unit that is no line terminator, followed by at least
  \<open>n\<close> copies of itself.
\<close>

fun runAt :: "nat \<Rightarrow> jsstring \<Rightarrow> bool" where
  "runAt n [] = False"
| "runAt n (c # cs) = (\<not> isLineTerminator c \<and> n \<le> length (takeWhile (\<lambda>x. x = c) cs))"

definition hasRepeatedChars :: "nat \<Rightarrow> jsstring \<Rightarrow> bool" where
  "hasRepeatedChars n s = hasMatch (runAt n) s"

text \<open>
  \<^verbatim>\<open>l.replace(/^(\d+[\.\):]?\s*|Line\s*\d+:?\s*)/i, '')\<close>. Every quantifier is greedy
  and nothing follows the group, so the first alternative that can match removes
  its longest match.
\<close>

definition stripLinePrefix :: "jsstring \<Rightarrow> jsstring" where
  "stripLinePrefix l =
     (if takeWhile isDigit l \<noteq> [] then
        (let r1 = dropWhile isDigit l;
             r2 = (case r1 of [] \<Rightarrow> [] | c # r \<Rightarrow> if c = 0x2E \<or> c = 0x29 \<or> c = 0x3A then r else r1)
         in dropWhile isWhiteSpace r2)
      else if ciPrefix (lit ''line'') l then
        (let r1 = dropWhile isWhiteSpace (drop 4 l)
         in if takeWhile isDigit r1 \<noteq> [] then
              (let r2 = dropWhile isDigit r1;
                   r3 = (case r2 of [] \<Rightarrow> [] | c # r \<Rightarrow> if c = 0x3A then r else r2)
               in dropWhile isWhiteSpace r3)
            else l)
      else l)"

text \<open>\<^verbatim>\<open>/^(example|haiku|write|now|here|sure|i |i'm|okay|let)/i\<close>\<close>

definition poemMetaText :: "jsstring \<Rightarrow> bool" where
  "poemMetaText l \<longleftrightarrow>
     list_ex (\<lambda>p. ciPrefix p l)
       [lit ''example'', lit ''haiku'', lit ''write'', lit ''now'', lit ''here'', lit ''sure'',
        lit ''i '', lit ''i'' @ [0x27] @ lit ''m'', lit ''okay'', lit ''let'']"

text \<open>\<^verbatim>\<open>/[\[\]<>{}|\\]|:$/\<close>\<close>

definition poemSpecialChars :: "jsstring \<Rightarrow> bool" where
  "poemSpecialChars l \<longleftrightarrow>
     list_ex (\<lambda>c. c = 0x5B \<or> c = 0x5D \<or> c = 0x3C \<or> c = 0x3E \<or> c = 0x7B \<or> c = 0x7D \<or>
                   c = 0x7C \<or> c = 0x5C) l
     \<or> (l \<noteq> [] \<and> last l = 0x3A)"

text \<open>The callback of \<^verbatim>\<open>filter\<close> in \<^verbatim>\<open>generatePoem\<close>.\<close>

definition keepLine :: "jsstring \<Rightarrow> bool" where
  "keepLine l =
     (if length l < 4 \<or> length l > 50 then False
      else if poemMetaText l then False
      else if poemSpecialChars l then False
      else True)"

text \<open>\<^verbatim>\<open>/R\.I\.|Refract|Cl.au|SmolLM|https?:/i\<close>, where the third alternative has U+00E9 between \<^verbatim>\<open>Cl\<close> and \<^verbatim>\<open>au\<close>.\<close>

definition leakedIdentity :: "jsstring \<Rightarrow> bool" where
  "leakedIdentity l \<longleftrightarrow>
     hasMatch (\<lambda>t. list_ex (\<lambda>p. ciPrefix p t)
       [lit ''r.i.'', lit ''refract'', lit ''cl'' @ [0xE9] @ lit ''au'', lit ''smollm'',
        lit ''http:'', lit ''https:'']) l"

definition joinWith :: "jsstring \<Rightarrow> jsstring list \<Rightarrow> jsstring" where
  "joinWith sep xs = (case xs of [] \<Rightarrow> [] | x # ys \<Rightarrow> x @ concat (map (\<lambda>y. sep @ y) ys))"

text \<open>The cleaning of one response in the loop of \<^verbatim>\<open>generatePoem\<close>.\<close>

definition poemLines :: "jsstring \<Rightarrow> jsstring list" where
  "poemLines response =
     filter keepLine (map stripLinePrefix (map trim (splitOn 0x0A (trim response))))"

definition hasGibberish :: "jsstring list \<Rightarrow> bool" where
  "hasGibberish ls = list_ex (\<lambda>l. leakedIdentity l \<or> hasRepeatedChars 3 l) ls"

definition validLineLengths :: "jsstring list \<Rightarrow> bool" where
  "validLineLengths ls =
     list_all (\<lambda>l. let wordCount = length (splitWs l) in wordCount \<ge> 2 \<and> wordCount \<le> 8) ls"

text \<open>One attempt of \<^verbatim>\<open>generatePoem\<close>: the haiku when the response is accepted.\<close>

definition poemAttempt :: "jsstring \<Rightarrow> jsstring option" where
  "poemAttempt response =
     (let ls = poemLines response
      in if length ls \<ge> 3 \<and> \<not> hasGibberish ls \<and> validLineLengths ls
         then Some (joinWith [0x0A] (take 3 ls))
         else None)"

text \<open>
  The completion of one prediction attempt: the first line of the trimmed
  response, trimmed, with a leading arrow U+2192 and the whitespace after it removed (\<^verbatim>\<open>replace\<close>) and trimmed again. \<open>split\<close> returns at
  least one piece, so element 0 exists.
\<close>

definition stripArrow :: "jsstring \<Rightarrow> jsstring" where
  "stripArrow s = (case s of [] \<Rightarrow> [] | c # cs \<Rightarrow> if c = 0x2192 then dropWhile isWhiteSpace cs else s)"

definition completionOf :: "jsstring \<Rightarrow> jsstring" where
  "completionOf response =
     trim (stripArrow (trim (case splitOn 0x0A (trim response) of [] \<Rightarrow> [] | l # _ \<Rightarrow> l)))"

text \<open>\<^verbatim>\<open>/\d{3,}|level up|you will be|you'll be a \d/i\<close>\<close>

definition bannedPhrase :: "jsstring \<Rightarrow> bool" where
  "bannedPhrase s \<longleftrightarrow>
     hasMatch (\<lambda>t. list_all isDigit (take 3 t) \<and> 3 \<le> length t
                 \<or> ciPrefix (lit ''level up'') t
                 \<or> ciPrefix (lit ''you will be'') t
                 \<or> (ciPrefix (lit ''you'' @ [0x27] @ lit ''ll be a '') t
                     \<and> (case drop 12 t of [] \<Rightarrow> False | c # _ \<Rightarrow> isDigit c))) s"

text \<open>\<^verbatim>\<open>/^(I |I'm |I'll |I've |Here|Please|Sure|Let me)/i\<close>\<close>

definition predictionMetaText :: "jsstring \<Rightarrow> bool" where
  "predictionMetaText s \<longleftrightarrow>
     list_ex (\<lambda>p. ciPrefix p s)
       [lit ''i '', lit ''i'' @ [0x27] @ lit ''m '', lit ''i'' @ [0x27] @ lit ''ll '',
        lit ''i'' @ [0x27] @ lit ''ve '', lit ''here'', lit ''please'', lit ''sure'', lit ''let me'']"

text \<open>\<^verbatim>\<open>/\?|!{2,}/\<close>\<close>

definition questionOrShout :: "jsstring \<Rightarrow> bool" where
  "questionOrShout s \<longleftrightarrow>
     hasMatch (\<lambda>t. (case t of c # _ \<Rightarrow> c = 0x3F | [] \<Rightarrow> False) \<or> take 2 t = [0x21, 0x21]) s"

text \<open>\<^verbatim>\<open>/help|assist|provide|question/i\<close>\<close>

definition assistantRegister :: "jsstring \<Rightarrow> bool" where
  "assistantRegister s \<longleftrightarrow>
     hasMatch (\<lambda>t. list_ex (\<lambda>p. ciPrefix p t)
       [lit ''help'', lit ''assist'', lit ''provide'', lit ''question'']) s"

text \<open>The expression \<^verbatim>\<open>isValid\<close> of \<^verbatim>\<open>generatePredictions\<close>.\<close>

definition isValid :: "runtime \<Rightarrow> jsstring \<Rightarrow> bool" where
  "isValid rt completion =
     (let ws = splitWs completion
      in length completion \<ge> 5 \<and> length completion \<le> 80 \<and>
         length ws \<ge> 3 \<and> length ws \<le> 20 \<and>
         \<not> bannedPhrase completion \<and>
         \<not> hasRepeatedChars 4 completion \<and>
         \<not> hasWordRepetition rt completion \<and>
         \<not> predictionMetaText completion \<and>
         \<not> questionOrShout completion \<and>
         \<not> assistantRegister completion)"

text \<open>
  A run of the same code unit \<open>k\<close> times in a row, as the specification words
  the repeated-character filter; line terminators apart, which \<^verbatim>\<open>.\<close> never matches.
\<close>

definition spec_hasRun :: "nat \<Rightarrow> jsstring \<Rightarrow> bool" where
  "spec_hasRun k s \<longleftrightarrow>
     (\<exists>i \<in> {0 ..< length s}. i + k \<le> length s \<and> \<not> isLineTerminator (s ! i) \<and>
        (\<forall>j \<in> {i ..< i + k}. s ! j = s ! i))"

section \<open>Backend responses and the output normaliser\<close>

text \<open>
  What the text-generation pipeline hands back is plain data: strings, lists,
  objects with named fields, \<^verbatim>\<open>null\<close> and \<^verbatim>\<open>undefined\<close>.
\<close>

datatype jsval =
    JUndefined
  | JNull
  | JStr jsstring
  | JArr "jsval list"
  | JObj "(jsstring \<times> jsval) list"

text \<open>
  The errors that can travel through \<^verbatim>\<open>src/ai.js\<close>: the \<^verbatim>\<open>Error\<close> that \<^verbatim>\<open>loadModel\<close>
  throws, a rejection of the generator call, and the \<^verbatim>\<open>TypeError\<close> of the engine
  for a property read on \<^verbatim>\<open>null\<close> or \<^verbatim>\<open>undefined\<close> or a call of a non-function.
\<close>

datatype error = LoadError | BackendError | TypeError

definition truthy :: "jsval \<Rightarrow> bool" where
  "truthy v = (case v of JUndefined \<Rightarrow> False | JNull \<Rightarrow> False | JStr s \<Rightarrow> s \<noteq> [] | _ \<Rightarrow> True)"

text \<open>
  \<^verbatim>\<open>v.k\<close> for the names \<^verbatim>\<open>role\<close>, \<^verbatim>\<open>content\<close> and \<^verbatim>\<open>generated_text\<close>, which neither strings
  nor arrays nor \<^verbatim>\<open>Object.prototype\<close> define.
\<close>

definition getProp :: "jsval \<Rightarrow> jsstring \<Rightarrow> error + jsval" where
  "getProp v k =
     (case v of
        JUndefined \<Rightarrow> Inl TypeError
      | JNull \<Rightarrow> Inl TypeError
      | JObj fs \<Rightarrow> Inr (case map_of fs k of None \<Rightarrow> JUndefined | Some x \<Rightarrow> x)
      | _ \<Rightarrow> Inr JUndefined)"

text \<open>\<^verbatim>\<open>v?.k\<close>\<close>

definition optProp :: "jsval \<Rightarrow> jsstring \<Rightarrow> jsval" where
  "optProp v k = (case getProp v k of Inl _ \<Rightarrow> JUndefined | Inr x \<Rightarrow> x)"

text \<open>\<^verbatim>\<open>v[0]\<close>\<close>

definition index0 :: "jsval \<Rightarrow> error + jsval" where
  "index0 v =
     (case v of
        JUndefined \<Rightarrow> Inl TypeError
      | JNull \<Rightarrow> Inl TypeError
      | JStr s \<Rightarrow> Inr (case s of [] \<Rightarrow> JUndefined | c # _ \<Rightarrow> JStr [c])
      | JArr xs \<Rightarrow> Inr (case xs of [] \<Rightarrow> JUndefined | x # _ \<Rightarrow> x)
      | JObj fs \<Rightarrow> Inr (case map_of fs (lit ''0'') of None \<Rightarrow> JUndefined | Some x \<Rightarrow> x))"

text \<open>\<^verbatim>\<open>String(v)\<close>; an array prints its elements joined by commas, empty for
  \<^verbatim>\<open>null\<close> and \<^verbatim>\<open>undefined\<close>.\<close>

fun toStringJs :: "jsval \<Rightarrow> jsstring" where
  "toStringJs JUndefined = lit ''undefined''"
| "toStringJs JNull = lit ''null''"
| "toStringJs (JStr s) = s"
| "toStringJs (JArr xs) =
     joinWith (lit '','')
       (map (\<lambda>x. if x = JUndefined \<or> x = JNull then [] else toStringJs x) xs)"
| "toStringJs (JObj fs) = lit ''[object Object]''"

text \<open>\<^verbatim>\<open>result.find(m => m.role === 'assistant')\<close>\<close>

fun findAssistant :: "jsval list \<Rightarrow> error + jsval" where
  "findAssistant [] = Inr JUndefined"
| "findAssistant (m # ms) =
     (case getProp m (lit ''role'') of
        Inl e \<Rightarrow> Inl e
      | Inr r \<Rightarrow> if r = JStr (lit ''assistant'') then Inr m else findAssistant ms)"

text \<open>
  Lines 103 to 114 of \<^verbatim>\<open>generate\<close>, applied to the value \<^verbatim>\<open>generated_text\<close>:
  the message list, the object with a content, the coercion to a string.
\<close>

definition normalizeOutput :: "jsval \<Rightarrow> error + jsstring" where
  "normalizeOutput generated_text =
     (case
        (case generated_text of
           JArr ms \<Rightarrow>
             (case findAssistant ms of
                Inl e \<Rightarrow> Inl e
              | Inr assistantMsg \<Rightarrow>
                  (let c1 = optProp assistantMsg (lit ''content'');
                       c2 = optProp (if ms = [] then JUndefined else last ms) (lit ''content'')
                   in Inr (if truthy c1 then c1 else if truthy c2 then c2 else JStr [])))
         | _ \<Rightarrow> Inr generated_text)
      of
        Inl e \<Rightarrow> Inl e
      | Inr result \<Rightarrow>
          (let result' =
                 (case result of
                    JObj fs \<Rightarrow>
                      (let c = optProp result (lit ''content'') in if truthy c then c else result)
                  | _ \<Rightarrow> result)
           in Inr (toStringJs (if truthy result' then result' else JStr []))))"

text \<open>Line 101: \<^verbatim>\<open>output[0]?.generated_text\<close>, followed by the normalisation.\<close>

definition readOutput :: "jsval \<Rightarrow> error + jsstring" where
  "readOutput output =
     (case index0 output of
        Inl e \<Rightarrow> Inl e
      | Inr first \<Rightarrow> normalizeOutput (optProp first (lit ''generated_text'')))"



section \<open>The profile and the fallback synthesiser\<close>

text \<open>
  The structured profile (\<^verbatim>\<open>wrappedData\<close>). Every field that the source reads
  through \<^verbatim>\<open>?.\<close> or \<^verbatim>\<open>||\<close> may be missing.
\<close>

record theme_rec =
  title :: "jsstring option"

record archetype_rec =
  name :: "jsstring option"

record phrase_rec =
  phrase :: "jsstring option"

record phrases_rec =
  unigrams :: "phrase_rec list option"

record stats_rec =
  messages_sent :: "nat option"

record profile =
  stats :: "stats_rec option"
  archetype :: "archetype_rec option"
  themes :: "theme_rec list option"
  phrases :: "phrases_rec option"

text \<open>\<^verbatim>\<open>x || d\<close> for a string or missing \<open>x\<close>.\<close>

definition orElse :: "jsstring option \<Rightarrow> jsstring \<Rightarrow> jsstring" where
  "orElse x d = (case x of None \<Rightarrow> d | Some s \<Rightarrow> if s = [] then d else s)"

text \<open>\<^verbatim>\<open>archetype?.name\<close>, \<^verbatim>\<open>themes?.[i]?.title\<close>, \<^verbatim>\<open>phrases?.unigrams?.[0]?.phrase\<close>,
  \<^verbatim>\<open>stats?.messages_sent || 0\<close>\<close>

definition archetypeName :: "profile \<Rightarrow> jsstring option" where
  "archetypeName p = (case archetype p of None \<Rightarrow> None | Some a \<Rightarrow> name a)"

definition themeTitle :: "profile \<Rightarrow> nat \<Rightarrow> jsstring option" where
  "themeTitle p i =
     (case themes p of None \<Rightarrow> None
      | Some ts \<Rightarrow> if i < length ts then title (ts ! i) else None)"

definition topPhrase :: "profile \<Rightarrow> jsstring option" where
  "topPhrase p =
     (case phrases p of None \<Rightarrow> None
      | Some ph \<Rightarrow>
          (case unigrams ph of None \<Rightarrow> None
           | Some us \<Rightarrow> (case us of [] \<Rightarrow> None | u # _ \<Rightarrow> phrase u)))"


text \<open>
  The decimal rendering of a counter inside a template literal. Message counts
  are natural numbers far below \<open>10\<^sup>2\<^sup>1\<close>, where the engine prints all digits.
\<close>

function showNat :: "nat \<Rightarrow> jsstring" where
  "showNat n = (if n < 10 then [0x30 + of_nat n] else showNat (n div 10) @ [0x30 + of_nat (n mod 10)])"
  by pat_completeness auto
termination
  by (relation "measure id") auto

declare showNat.simps [simp del]

text \<open>\<^verbatim>\<open>s.charAt(0).toUpperCase() + s.slice(1)\<close>\<close>

definition capitalize :: "runtime \<Rightarrow> jsstring \<Rightarrow> jsstring" where
  "capitalize rt s = toUpperCase rt (take 1 s) @ drop 1 s"


definition getFallbackPoem :: "runtime \<Rightarrow> profile \<Rightarrow> jsstring" where
  "getFallbackPoem rt p =
     (let style = orElse (map_option (toLowerCase rt) (archetypeName p)) (lit ''seeker'');
          topTheme = orElse (map_option (toLowerCase rt) (themeTitle p 0)) (lit ''ideas'');
          topWord = orElse (topPhrase p) (lit ''wonder'')
      in capitalize rt style @ lit '' of '' @ topTheme @ [0x0A] @
         capitalize rt topWord @ lit '' guides the path forward'' @ [0x0A] @
         lit ''Claude lights the way'')"

text \<open>The profile in which everything is missing.\<close>

definition emptyProfile :: profile where
  "emptyProfile = \<lparr> stats = None, archetype = None, themes = None, phrases = None \<rparr>"


section \<open>The backend handle\<close>

text \<open>
  The module state of \<^verbatim>\<open>src/ai.js\<close>: \<^verbatim>\<open>generator\<close> (\<^verbatim>\<open>null\<close> or the handle that
  \<^verbatim>\<open>pipeline\<close> resolved to), \<^verbatim>\<open>modelLoading\<close> and \<^verbatim>\<open>modelReady\<close>. The two counters
  are not in the source: they record how often the external \<^verbatim>\<open>pipeline\<close> and the
  generator have been called, so that attempts can be counted.
\<close>

type_synonym handle = nat

record world =
  generator :: "handle option"
  modelLoading :: bool
  modelReady :: bool
  pipelineCalls :: nat
  genCalls :: nat

definition initialWorld :: world where
  "initialWorld = \<lparr> generator = None, modelLoading = False, modelReady = False,
                    pipelineCalls = 0, genCalls = 0 \<rparr>"

text \<open>
  The external collaborator, with every behaviour it can show to this module: the
  \<open>n\<close>-th call of \<^verbatim>\<open>pipeline\<close> resolves to a handle or rejects (\<open>None\<close>), and the
  \<open>n\<close>-th call of the generator, with its prompt and token budget, resolves to
  some output or rejects (\<open>None\<close>). The choice of the device and the progress
  callback only reach \<^verbatim>\<open>pipeline\<close> and are left out. A call that never settles is
  outside this model.
\<close>

record backend =
  pipeline :: "nat \<Rightarrow> handle option"
  gen :: "nat \<Rightarrow> jsstring \<Rightarrow> nat \<Rightarrow> jsval option"

text \<open>
  An asynchronous call, run to its end by a caller that is alone: \<open>None\<close> when it
  never settles, otherwise the rejection (\<open>Inl\<close>) or the value (\<open>Inr\<close>), and the
  module state it leaves.
\<close>

type_synonym 'a async = "((error + 'a) \<times> world) option"

text \<open>
  \<^verbatim>\<open>while (modelLoading) { await new Promise(r => setTimeout(r, 100)); }\<close> for a caller
  that is alone: nobody resets the flag while it waits.
\<close>

partial_function (option) pollModelLoading :: "world \<Rightarrow> world option" where
  "pollModelLoading w = (if modelLoading w then pollModelLoading w else Some w)"

definition loadModel :: "backend \<Rightarrow> world \<Rightarrow> (handle option) async" where
  "loadModel b w =
     (if modelReady w \<and> generator w \<noteq> None then Some (Inr (generator w), w)
      else if modelLoading w then
        (case pollModelLoading w of
           None \<Rightarrow> None
         | Some w' \<Rightarrow> Some (Inr (generator w'), w'))
      else
        (let w1 = w\<lparr> modelLoading := True, pipelineCalls := pipelineCalls w + 1 \<rparr>
         in case pipeline b (pipelineCalls w) of
              Some h \<Rightarrow>
                Some (Inr (Some h),
                      w1\<lparr> generator := Some h, modelReady := True, modelLoading := False \<rparr>)
            | None \<Rightarrow> Some (Inl LoadError, w1\<lparr> modelLoading := False \<rparr>)))"

definition isModelReady :: "world \<Rightarrow> bool" where
  "isModelReady w = modelReady w"

text \<open>
  \<^verbatim>\<open>generate(prompt, maxTokens)\<close>. Calling a \<^verbatim>\<open>gen\<close> that is \<^verbatim>\<open>null\<close> is a
  \<^verbatim>\<open>TypeError\<close>.
\<close>

definition generate :: "backend \<Rightarrow> jsstring \<Rightarrow> nat \<Rightarrow> world \<Rightarrow> jsstring async" where
  "generate b prompt maxTokens w =
     (case loadModel b w of
        None \<Rightarrow> None
      | Some (Inl e, w1) \<Rightarrow> Some (Inl e, w1)
      | Some (Inr g, w1) \<Rightarrow>
          (case g of
             None \<Rightarrow> Some (Inl TypeError, w1)
           | Some h \<Rightarrow>
               (let w2 = w1\<lparr> genCalls := genCalls w1 + 1 \<rparr>
                in case gen b (genCalls w1) prompt maxTokens of
                     None \<Rightarrow> Some (Inl BackendError, w2)
                   | Some output \<Rightarrow>
                       (case readOutput output of
                          Inl e \<Rightarrow> Some (Inl e, w2)
                        | Inr s \<Rightarrow> Some (Inr s, w2)))))"

section \<open>Poem and predictions\<close>

definition MAX_RETRIES :: nat where
  "MAX_RETRIES = 5"

text \<open>The prompt of \<^verbatim>\<open>generatePoem\<close>.\<close>

definition allThemes :: "profile \<Rightarrow> jsstring" where
  "allThemes p =
     (let j = joinWith (lit '', '')
                (map (\<lambda>t. case title t of None \<Rightarrow> [] | Some s \<Rightarrow> s)
                   (take 3 (case themes p of None \<Rightarrow> [] | Some ts \<Rightarrow> ts)))
      in if j = [] then lit ''various topics'' else j)"

definition firstTheme :: "profile \<Rightarrow> jsstring" where
  "firstTheme p =
     (let f = trim (case splitOn 0x2C (allThemes p) of [] \<Rightarrow> [] | x # _ \<Rightarrow> x)
      in if f = [] then lit ''learning'' else f)"

definition poemPrompt :: "runtime \<Rightarrow> profile \<Rightarrow> jsstring" where
  "poemPrompt rt p =
     lit ''Write a 3-line haiku about '' @ firstTheme p @ lit ''. Keep it simple and natural.'' @
     [0x0A, 0x0A] @
     lit ''Morning light arrives'' @ [0x0A] @
     lit ''Coffee steams beside keyboard'' @ [0x0A] @
     lit ''New ideas bloom'' @ [0x0A, 0x0A] @
     lit ''Autumn leaves falling'' @ [0x0A] @
     lit ''Code flows like a gentle stream'' @ [0x0A] @
     lit ''Wisdom takes its time'' @ [0x0A, 0x0A] @
     capitalize rt (firstTheme p) @ lit '' inspires me''"

text \<open>The retry loop of \<^verbatim>\<open>generatePoem\<close>; no \<^verbatim>\<open>try\<close> surrounds the call of \<^verbatim>\<open>generate\<close>.\<close>

function poemLoop :: "runtime \<Rightarrow> backend \<Rightarrow> profile \<Rightarrow> nat \<Rightarrow> world \<Rightarrow> jsstring async" where
  "poemLoop rt b p attempt w =
     (if attempt \<le> MAX_RETRIES then
        (case generate b (poemPrompt rt p) 40 w of
           None \<Rightarrow> None
         | Some (Inl e, w') \<Rightarrow> Some (Inl e, w')
         | Some (Inr response, w') \<Rightarrow>
             (case poemAttempt response of
                Some haiku \<Rightarrow> Some (Inr haiku, w')
              | None \<Rightarrow> poemLoop rt b p (attempt + 1) w'))
      else Some (Inr (getFallbackPoem rt p), w))"
  by pat_completeness auto
termination
  by (relation "measure (\<lambda>(rt, b, p, attempt, w). MAX_RETRIES + 1 - attempt)") auto

declare poemLoop.simps [simp del]

definition generatePoem :: "runtime \<Rightarrow> backend \<Rightarrow> profile \<Rightarrow> world \<Rightarrow> jsstring async" where
  "generatePoem rt b p w =
     (case loadModel b w of
        None \<Rightarrow> None
      | Some (Inl e, w1) \<Rightarrow> Some (Inl e, w1)
      | Some (Inr _, w1) \<Rightarrow> poemLoop rt b p 1 w1)"

text \<open>The four units of \<^verbatim>\<open>generatePredictions\<close>: the stem and the fallback of each.\<close>

definition predictionUnits :: "profile \<Rightarrow> (jsstring \<times> jsstring) list" where
  "predictionUnits p =
     (let topTheme = orElse (themeTitle p 0) (lit ''learning'');
          secondTheme = orElse (themeTitle p 1) (lit ''creating'');
          style = orElse (archetypeName p) (lit ''Explorer'');
          topWord = orElse (topPhrase p) (lit ''ideas'')
      in [(lit ''In 2026, your '' @ topTheme @ lit '' skills will'',
           lit ''Your '' @ topTheme @ lit '' obsession will reach new heights''),
          (lit ''As a '' @ style @ lit '', you'' @ [0x27] @ lit ''ll discover'',
           lit ''As a true '' @ style @ lit '', you'' @ [0x27] @ lit ''ll discover 3 new use cases''),
          (lit ''Your favorite word '' @ [0x22] @ topWord @ [0x22] @ lit '' will'',
           [0x22] @ topWord @ [0x22] @ lit '' will become your catchphrase''),
          (lit ''Next year in '' @ secondTheme @ lit '', you'' @ [0x27] @ lit ''ll'',
           lit ''Your '' @ secondTheme @ lit '' journey will surprise you'')])"

definition predictionPrompt :: "jsstring \<Rightarrow> jsstring" where
  "predictionPrompt start =
     lit ''Complete each sentence with a short, fun prediction (5-15 words):'' @ [0x0A, 0x0A] @
     lit ''Example: In 2026, your Coding skills will '' @ [0x2192] @
       lit '' unlock new creative possibilities'' @ [0x0A] @
     lit ''Example: As a Sage, you'' @ [0x27] @ lit ''ll discover '' @ [0x2192] @
       lit '' the joy of mentoring others'' @ [0x0A] @
     lit ''Example: Your favorite word '' @ [0x22] @ lit ''debug'' @ [0x22] @ lit '' will '' @
       [0x2192] @ lit '' become your superpower at work'' @ [0x0A, 0x0A] @
     lit ''Now complete: '' @ start @ [0x20, 0x2192]"

text \<open>
  The inner loop of \<^verbatim>\<open>generatePredictions\<close> for one unit:
  \<^verbatim>\<open>for (let attempt = 1; attempt <= MAX_RETRIES && !generated; attempt++)\<close> with its
  \<^verbatim>\<open>try\<close> and \<^verbatim>\<open>catch\<close>. The result is the pushed prediction, or \<open>None\<close> when the
  loop ends with \<^verbatim>\<open>generated\<close> still false.
\<close>

function predictionLoop ::
  "runtime \<Rightarrow> backend \<Rightarrow> jsstring \<Rightarrow> nat \<Rightarrow> world \<Rightarrow> (jsstring option \<times> world) option" where
  "predictionLoop rt b start attempt w =
     (if attempt \<le> MAX_RETRIES then
        (case generate b (predictionPrompt start) 20 w of
           None \<Rightarrow> None
         | Some (Inl err, w') \<Rightarrow> predictionLoop rt b start (attempt + 1) w'
         | Some (Inr response, w') \<Rightarrow>
             (let completion = completionOf response
              in if isValid rt completion
                 then Some (Some (start @ lit '' '' @ completion), w')
                 else predictionLoop rt b start (attempt + 1) w'))
      else Some (None, w))"
  by pat_completeness auto
termination
  by (relation "measure (\<lambda>(rt, b, start, attempt, w). MAX_RETRIES + 1 - attempt)") auto

declare predictionLoop.simps [simp del]

text \<open>The outer loop over the units, pushing onto \<^verbatim>\<open>predictions\<close>.\<close>

fun predictionsLoop ::
  "runtime \<Rightarrow> backend \<Rightarrow> (jsstring \<times> jsstring) list \<Rightarrow> jsstring list \<Rightarrow> world \<Rightarrow>
     (jsstring list \<times> world) option" where
  "predictionsLoop rt b [] predictions w = Some (predictions, w)"
| "predictionsLoop rt b ((start, fallback) # units) predictions w =
     (case predictionLoop rt b start 1 w of
        None \<Rightarrow> None
      | Some (Some text, w') \<Rightarrow> predictionsLoop rt b units (predictions @ [text]) w'
      | Some (None, w') \<Rightarrow> predictionsLoop rt b units (predictions @ [fallback]) w')"

definition generatePredictions ::
  "runtime \<Rightarrow> backend \<Rightarrow> profile \<Rightarrow> world \<Rightarrow> (jsstring list) async" where
  "generatePredictions rt b p w =
     (case loadModel b w of
        None \<Rightarrow> None
      | Some (Inl e, w1) \<Rightarrow> Some (Inl e, w1)
      | Some (Inr _, w1) \<Rightarrow>
          (case predictionsLoop rt b (predictionUnits p) [] w1 of
             None \<Rightarrow> None
           | Some (predictions, w2) \<Rightarrow> Some (Inr predictions, w2)))"

section \<open>Notions used to state the properties of the retry loops\<close>

text \<open>The test of line 25: the model is loaded and a handle is cached.\<close>

definition ready :: "world \<Rightarrow> bool" where
  "ready w \<longleftrightarrow> modelReady w \<and> generator w \<noteq> None"

text \<open>
  What the \<open>n\<close>-th call of the generator gives to \<^verbatim>\<open>generate\<close>: the rejection, the
  \<^verbatim>\<open>TypeError\<close> of reading the output, or the normalised text.
\<close>

definition attemptResult :: "backend \<Rightarrow> nat \<Rightarrow> jsstring \<Rightarrow> nat \<Rightarrow> error + jsstring" where
  "attemptResult b n prompt maxTokens =
     (case gen b n prompt maxTokens of None \<Rightarrow> Inl BackendError | Some output \<Rightarrow> readOutput output)"



text \<open>A backend from which no attempt yields a valid prediction: each call rejects,
  gives unreadable output, or gives text that fails \<^verbatim>\<open>isValid\<close>.\<close>

definition noValidPrediction :: "runtime \<Rightarrow> backend \<Rightarrow> bool" where
  "noValidPrediction rt b \<longleftrightarrow>
     (\<forall>n prompt k resp. attemptResult b n prompt k = Inr resp \<longrightarrow> \<not> isValid rt (completionOf resp))"




definition rejectingBackend :: backend where
  "rejectingBackend = \<lparr> pipeline = (\<lambda>n. Some 0), gen = (\<lambda>n prompt k. None) \<rparr>"

text \<open>A backend that loads and answers every prompt with an arrow, a completion of
  80 characters and a second line.\<close>

definition sageResponse :: jsstring where
  "sageResponse =
     [0x20, 0x2192, 0x20] @
     lit ''unlock new creative possibilities and bring fresh energy to every single project'' @
     [0x0A] @ lit ''and more''"

definition sageBackend :: backend where
  "sageBackend =
     \<lparr> pipeline = (\<lambda>n. Some 0),
       gen = (\<lambda>n prompt k. Some (JArr [JObj [(lit ''generated_text'', JStr sageResponse)]])) \<rparr>"

section \<open>The backend lifecycle, step by step\<close>

text \<open>
  Several calls of \<^verbatim>\<open>loadModel\<close> can be in flight, interleaved at their \<^verbatim>\<open>await\<close>
  points. A call is at one of these points: polling in the \<^verbatim>\<open>while\<close> loop,
  waiting for its call of \<^verbatim>\<open>pipeline\<close> (the \<open>n\<close>-th one) to settle, or settled
  with its rejection or value. \<open>Called\<close> is the call before its first step.
\<close>

datatype loadTask =
    Called
  | Polling
  | AwaitingPipeline nat
  | Settled "error + handle option"

text \<open>
  One step of a call: the code from one \<^verbatim>\<open>await\<close> point to the next, which runs
  without interruption.
\<close>

definition stepTask :: "backend \<Rightarrow> loadTask \<Rightarrow> world \<Rightarrow> loadTask \<times> world" where
  "stepTask b t w =
     (case t of
        Called \<Rightarrow>
          (if modelReady w \<and> generator w \<noteq> None then (Settled (Inr (generator w)), w)
           else if modelLoading w then (Polling, w)
           else (AwaitingPipeline (pipelineCalls w),
                 w\<lparr> modelLoading := True, pipelineCalls := pipelineCalls w + 1 \<rparr>))
      | Polling \<Rightarrow>
          (if modelLoading w then (Polling, w) else (Settled (Inr (generator w)), w))
      | AwaitingPipeline n \<Rightarrow>
          (case pipeline b n of
             Some h \<Rightarrow>
               (Settled (Inr (Some h)),
                w\<lparr> generator := Some h, modelReady := True, modelLoading := False \<rparr>)
           | None \<Rightarrow> (Settled (Inl LoadError), w\<lparr> modelLoading := False \<rparr>))
      | Settled r \<Rightarrow> (Settled r, w))"

text \<open>
  What can happen next: somebody calls \<^verbatim>\<open>loadModel\<close>, which runs at once to its
  first \<^verbatim>\<open>await\<close>, or the \<open>i\<close>-th call in flight takes its next step.
\<close>

datatype action = Call | Step nat

fun act :: "backend \<Rightarrow> loadTask list \<times> world \<Rightarrow> action \<Rightarrow> loadTask list \<times> world" where
  "act b (ts, w) Call = (ts @ [fst (stepTask b Called w)], snd (stepTask b Called w))"
| "act b (ts, w) (Step i) =
     (if i < length ts
      then (ts[i := fst (stepTask b (ts ! i) w)], snd (stepTask b (ts ! i) w))
      else (ts, w))"

definition run :: "backend \<Rightarrow> action list \<Rightarrow> loadTask list \<times> world" where
  "run b acts = foldl (act b) ([], initialWorld) acts"

text \<open>
  The lifecycle that the three variables encode. The source has no fourth state:
  a failed load leaves \<^verbatim>\<open>modelLoading\<close> and \<^verbatim>\<open>modelReady\<close> false and \<^verbatim>\<open>generator\<close>
  unchanged.
\<close>

datatype backendState = Unloaded | Loading | Ready

definition stateOf :: "world \<Rightarrow> backendState" where
  "stateOf w =
     (if modelReady w \<and> generator w \<noteq> None then Ready
      else if modelLoading w then Loading
      else Unloaded)"

definition isAwaiting :: "loadTask \<Rightarrow> bool" where
  "isAwaiting t = (case t of AwaitingPipeline _ \<Rightarrow> True | _ \<Rightarrow> False)"

text \<open>The transitions of the lifecycle that the source can make.\<close>

definition lifecycleEdge :: "backendState \<Rightarrow> backendState \<Rightarrow> bool" where
  "lifecycleEdge s s' \<longleftrightarrow>
     s' = s \<or> (s = Unloaded \<and> s' = Loading) \<or> (s = Loading \<and> s' = Ready) \<or>
     (s = Loading \<and> s' = Unloaded)"

text \<open>A backend whose first initialisation fails and whose second succeeds.\<close>

definition retryBackend :: backend where
  "retryBackend =
     \<lparr> pipeline = (\<lambda>n. if n = 0 then None else Some 7), gen = (\<lambda>n prompt k. None) \<rparr>"

text \<open>
  What holds of the calls in flight at every moment: a call waits for \<^verbatim>\<open>pipeline\<close>
  only while \<^verbatim>\<open>modelLoading\<close> is set and the model is not ready, and at most one
  call does.
\<close>

definition consistent :: "loadTask list \<times> world \<Rightarrow> bool" where
  "consistent c \<longleftrightarrow>
     (\<forall>i < length (fst c). isAwaiting (fst c ! i) \<longrightarrow>
        modelLoading (snd c) \<and> \<not> ready (snd c) \<and>
        (\<forall>j < length (fst c). isAwaiting (fst c ! j) \<longrightarrow> j = i))"


section \<open>Properties of the word-repetition filter\<close>

lemma splitWs_no_ws: "t \<in> set (splitWs s) \<Longrightarrow> c \<in> set t \<Longrightarrow> \<not> isWhiteSpace c"
proof (induction s arbitrary: t rule: splitWs.induct)
  case (1 s)
  let ?tok = "takeWhile (\<lambda>c. \<not> isWhiteSpace c) s"
  let ?rest = "dropWhile (\<lambda>c. \<not> isWhiteSpace c) s"
  have tok: "t = ?tok \<Longrightarrow> ?case"
    using "1.prems"(2) by (auto dest: set_takeWhileD)
  show ?case
  proof (cases "?rest = []")
    case True
    then have "splitWs s = [?tok]"
      by (auto simp: splitWs.simps [of s] Let_def)
    with "1.prems" tok show ?thesis by simp
  next
    case False
    then have "splitWs s = ?tok # splitWs (dropWhile isWhiteSpace ?rest)"
      by (auto simp: splitWs.simps [of s] Let_def)
    with "1.prems"(1) consider "t = ?tok" | "t \<in> set (splitWs (dropWhile isWhiteSpace ?rest))"
      by auto
    then show ?thesis
    proof cases
      case 1
      with tok show ?thesis .
    next
      case 2
      from "1.IH" [OF refl refl False 2 "1.prems"(2)] show ?thesis .
    qed
  qed
qed
lemma append_sep_eq:
  "d \<notin> set a \<Longrightarrow> d \<notin> set c \<Longrightarrow> a @ d # b = c @ d # e \<longleftrightarrow> a = c \<and> b = e"
proof (induction a arbitrary: c)
  case Nil
  then show ?case by (cases c) simp_all
next
  case (Cons x a)
  show ?case
  proof (cases c)
    case Nil
    with Cons.prems show ?thesis by auto
  next
    case (Cons y c')
    with Cons.prems Cons.IH [of c'] show ?thesis by simp
  qed
qed

lemma countWords_iff:
  "(\<And>w k. m w = Some k \<Longrightarrow> k < 3) \<Longrightarrow>
   countWords m ws \<longleftrightarrow>
     (\<exists>w \<in> set ws. 3 \<le> length w \<and> \<not> inheritedName w \<and>
        3 \<le> (case m w of None \<Rightarrow> 0 | Some k \<Rightarrow> k) + count_list ws w)"
proof (induction ws arbitrary: m)
  case Nil
  show ?case by simp
next
  case (Cons w ws)
  let ?P = "\<lambda>m ws v. 3 \<le> length v \<and> \<not> inheritedName v \<and>
        3 \<le> (case m v of None \<Rightarrow> 0 | Some k \<Rightarrow> k) + count_list ws v"
  show ?case
  proof (cases "length w < 3 \<or> inheritedName w")
    case True
    then have "countWords m (w # ws) = countWords m ws" by auto
    also have "\<dots> \<longleftrightarrow> (\<exists>v \<in> set ws. ?P m ws v)"
      using Cons.IH [of m] Cons.prems by blast
    also have "\<dots> \<longleftrightarrow> (\<exists>v \<in> set (w # ws). ?P m (w # ws) v)"
    proof -
      have "\<And>v. ?P m ws v \<longleftrightarrow> ?P m (w # ws) v"
        using True by (case_tac "v = w") auto
      moreover have "\<not> ?P m (w # ws) w" using True by auto
      ultimately show ?thesis by (metis set_ConsD list.set_intros(2))
    qed
    finally show ?thesis .
  next
    case False
    define n where "n = (case m w of None \<Rightarrow> 0 | Some k \<Rightarrow> k) + 1"
    show ?thesis
    proof (cases "3 \<le> n")
      case True
      then have "countWords m (w # ws)" using False by (simp add: n_def Let_def)
      moreover have "?P m (w # ws) w" using False True by (simp add: n_def)
      ultimately show ?thesis by (metis list.set_intros(1))
    next
      case n3: False
      have inv: "\<And>v k. (m(w \<mapsto> n)) v = Some k \<Longrightarrow> k < 3"
        using Cons.prems n3 by (simp split: if_splits)
      have "countWords m (w # ws) = countWords (m(w \<mapsto> n)) ws"
        using False n3 by (simp add: n_def Let_def)
      also have "\<dots> \<longleftrightarrow> (\<exists>v \<in> set ws. ?P (m(w \<mapsto> n)) ws v)"
        using Cons.IH [of "m(w \<mapsto> n)"] inv by blast
      also have "\<dots> \<longleftrightarrow> (\<exists>v \<in> set (w # ws). ?P m (w # ws) v)"
      proof -
        have "\<And>v. ?P (m(w \<mapsto> n)) ws v \<longleftrightarrow> ?P m (w # ws) v"
          by (case_tac "v = w") (simp_all add: n_def)
        moreover have "w \<notin> set ws \<Longrightarrow> \<not> ?P m (w # ws) w"
          using n3 by (simp add: n_def)
        ultimately show ?thesis by (metis set_ConsD list.set_intros(2))
      qed
      finally show ?thesis .
    qed
  qed
qed
lemma bigramLoop_iff:
  "bigramLoop ws i \<longleftrightarrow>
     (\<exists>j \<ge> i. j + 3 < length ws \<and>
        ws ! j @ lit '' '' @ ws ! (j + 1) = ws ! (j + 2) @ lit '' '' @ ws ! (j + 3))"
proof (induction ws i rule: bigramLoop.induct)
  case (1 ws i)
  show ?case
  proof (cases "i + 3 < length ws")
    case False
    then show ?thesis by (simp add: bigramLoop.simps [of ws i])
  next
    case True
    show ?thesis
    proof (cases "ws ! i @ lit '' '' @ ws ! (i + 1) = ws ! (i + 2) @ lit '' '' @ ws ! (i + 3)")
      case eq: True
      with True show ?thesis by (auto simp: bigramLoop.simps [of ws i])
    next
      case neq: False
      have "bigramLoop ws i = bigramLoop ws (i + 1)"
        using True neq by (simp add: bigramLoop.simps [of ws i])
      also have "\<dots> \<longleftrightarrow> (\<exists>j \<ge> i + 1. j + 3 < length ws \<and>
        ws ! j @ lit '' '' @ ws ! (j + 1) = ws ! (j + 2) @ lit '' '' @ ws ! (j + 3))"
        using "1.IH" [OF _ refl refl neq] True by simp
      also have "\<dots> \<longleftrightarrow> (\<exists>j \<ge> i. j + 3 < length ws \<and>
        ws ! j @ lit '' '' @ ws ! (j + 1) = ws ! (j + 2) @ lit '' '' @ ws ! (j + 3))"
        using neq by (metis Suc_eq_plus1 Suc_leD Suc_leI le_neq_implies_less)
      finally show ?thesis .
    qed
  qed
qed



lemma lit_space: "lit '' '' = [0x20]"
  by (simp add: lit_def)

lemma bigram_eq_iff:
  assumes "\<forall>t \<in> set ws. \<forall>c \<in> set t. \<not> isWhiteSpace c" and "j + 3 < length ws"
  shows "ws ! j @ lit '' '' @ ws ! (j + 1) = ws ! (j + 2) @ lit '' '' @ ws ! (j + 3)
         \<longleftrightarrow> ws ! j = ws ! (j + 2) \<and> ws ! (j + 1) = ws ! (j + 3)"
proof -
  have sp: "isWhiteSpace 0x20" by (simp add: isWhiteSpace_def)
  have "ws ! j \<in> set ws" "ws ! (j + 2) \<in> set ws" using assms(2) by simp_all
  with assms(1) sp have "0x20 \<notin> set (ws ! j)" "0x20 \<notin> set (ws ! (j + 2))" by blast+
  then show ?thesis by (simp add: lit_space append_sep_eq)
qed

lemma splitWs_abc3:
  "splitWs (lit ''abc abc abc'') = [lit ''abc'', lit ''abc'', lit ''abc'']"
  by code_simp

lemma splitWs_learn:
  "splitWs (toLowerCase asciiRuntime (lit ''Learn to learn to'')) =
     [lit ''learn'', lit ''to'', lit ''learn'', lit ''to'']"
  by code_simp

lemma inheritedName_learn:
  "\<forall>w \<in> set [lit ''learn'', lit ''to'', lit ''learn'', lit ''to'']. \<not> inheritedName w"
  by code_simp

text \<open>
  C7, as stated, fails on a text of fewer than four tokens: in \<^verbatim>\<open>"abc abc abc"\<close> the
  token \<^verbatim>\<open>abc\<close> has length 3 and occurs 3 times, and \<^verbatim>\<open>hasWordRepetition\<close> returns
  false, by its guard \<^verbatim>\<open>if (words.length < 4) return false\<close>.
\<close>

theorem hasWordRepetition_three_tokens_counterexample:
  "spec_wordRepetition (splitWs (lit ''abc abc abc'')) \<and>
   \<not> hasWordRepetition asciiRuntime (lit ''abc abc abc'')"
proof -
  have "spec_wordRepetition [lit ''abc'', lit ''abc'', lit ''abc'']" by code_simp
  moreover have "\<not> hasWordRepetition asciiRuntime (lit ''abc abc abc'')" by code_simp
  ultimately show ?thesis unfolding splitWs_abc3 by blast
qed

text \<open>
  C7 (amended): let \<open>ws\<close> be the tokens of the lower-cased text, split at runs of
  whitespace, and let none of them be a name that the counting object inherits
  (\<^verbatim>\<open>constructor\<close>, \<^verbatim>\<open>__proto__\<close>). Then \<^verbatim>\<open>hasWordRepetition\<close> reports repetition
  exactly when there are at least four tokens and either some token of length at
  least 3 occurs 3 or more times or two adjacent two-token windows are identical.
  In particular it reports none for a text of fewer than four tokens.
\<close>

theorem hasWordRepetition_tokens:
  assumes "ws = splitWs (toLowerCase rt text)"
    and "\<forall>w \<in> set ws. \<not> inheritedName w"
  shows "hasWordRepetition rt text \<longleftrightarrow> 4 \<le> length ws \<and> spec_wordRepetition ws"
proof (cases "length ws < 4")
  case True
  then show ?thesis using assms(1) by (simp add: hasWordRepetition_def)
next
  case False
  have nows: "\<forall>t \<in> set ws. \<forall>c \<in> set t. \<not> isWhiteSpace c"
    using splitWs_no_ws assms(1) by blast
  have "countWords Map.empty ws \<longleftrightarrow>
      (\<exists>w \<in> set ws. 3 \<le> length w \<and> \<not> inheritedName w \<and> 3 \<le> 0 + count_list ws w)"
    using countWords_iff [of Map.empty ws] by simp
  then have c: "countWords Map.empty ws \<longleftrightarrow> (\<exists>w \<in> set ws. 3 \<le> length w \<and> 3 \<le> count_list ws w)"
    using assms(2) by auto
  have "bigramLoop ws 0 \<longleftrightarrow> (\<exists>j. j + 3 < length ws \<and>
        ws ! j @ lit '' '' @ ws ! (j + 1) = ws ! (j + 2) @ lit '' '' @ ws ! (j + 3))"
    using bigramLoop_iff [of ws 0] by simp
  also have "\<dots> \<longleftrightarrow> (\<exists>j. j + 3 < length ws \<and> ws ! j = ws ! (j + 2) \<and> ws ! (j + 1) = ws ! (j + 3))"
    using bigram_eq_iff [OF nows] by blast
  also have "\<dots> \<longleftrightarrow> (\<exists>i \<in> {0 ..< length ws - 3}. ws ! i = ws ! (i + 2) \<and> ws ! (i + 1) = ws ! (i + 3))"
    by (auto simp: less_diff_conv)
  finally have b: "bigramLoop ws 0 \<longleftrightarrow>
      (\<exists>i \<in> {0 ..< length ws - 3}. ws ! i = ws ! (i + 2) \<and> ws ! (i + 1) = ws ! (i + 3))" .
  have "hasWordRepetition rt text \<longleftrightarrow> countWords Map.empty ws \<or> bigramLoop ws 0"
    using False assms(1) by (auto simp: hasWordRepetition_def Let_def)
  with False c b show ?thesis by (simp add: spec_wordRepetition_def)
qed

theorem hasWordRepetition_tokens_witness:
  "[lit ''learn'', lit ''to'', lit ''learn'', lit ''to''] =
     splitWs (toLowerCase asciiRuntime (lit ''Learn to learn to'')) \<and>
   \<not> inheritedName (lit ''learn'') \<and> \<not> inheritedName (lit ''to'') \<and>
   hasWordRepetition asciiRuntime (lit ''Learn to learn to'') \<and>
   spec_wordRepetition [lit ''learn'', lit ''to'', lit ''learn'', lit ''to'']"
proof -
  let ?ws = "[lit ''learn'', lit ''to'', lit ''learn'', lit ''to'']"
  have h1: "?ws = splitWs (toLowerCase asciiRuntime (lit ''Learn to learn to''))"
    by (simp only: splitWs_learn)
  have h2: "\<not> inheritedName (lit ''learn'') \<and> \<not> inheritedName (lit ''to'')"
    using inheritedName_learn by simp
  have r: "hasWordRepetition asciiRuntime (lit ''Learn to learn to'')" by code_simp
  from hasWordRepetition_tokens [OF h1 inheritedName_learn] r
  have "spec_wordRepetition ?ws" by blast
  with h1 h2 r show ?thesis by blast
qed

section \<open>Properties of the repeated-character filter\<close>

lemma takeWhile_length_ge:
  "n \<le> length (takeWhile Q xs) \<longleftrightarrow> n \<le> length xs \<and> (\<forall>j<n. Q (xs ! j))"
proof (induction xs arbitrary: n)
  case Nil
  show ?case by auto
next
  case (Cons x xs)
  show ?case
  proof (cases n)
    case 0
    then show ?thesis by simp
  next
    case (Suc k)
    show ?thesis
    proof (cases "Q x")
      case True
      then have "n \<le> length (takeWhile Q (x # xs)) \<longleftrightarrow> k \<le> length xs \<and> (\<forall>j<k. Q (xs ! j))"
        using Cons.IH [of k] Suc by simp
      also have "\<dots> \<longleftrightarrow> n \<le> length (x # xs) \<and> (\<forall>j<n. Q ((x # xs) ! j))"
        using True Suc by (auto simp: less_Suc_eq_0_disj)
      finally show ?thesis .
    next
      case False
      then show ?thesis using Suc by auto
    qed
  qed
qed

lemma hasMatch_iff: "hasMatch P s \<longleftrightarrow> (\<exists>i \<le> length s. P (drop i s))"
proof (induction s)
  case Nil
  show ?case by simp
next
  case (Cons c cs)
  have "(\<exists>i \<le> length (c # cs). P (drop i (c # cs))) \<longleftrightarrow>
        P (c # cs) \<or> (\<exists>i \<le> length cs. P (drop i cs))"
  proof
    assume "\<exists>i \<le> length (c # cs). P (drop i (c # cs))"
    then obtain i where i: "i \<le> length (c # cs)" "P (drop i (c # cs))" by blast
    show "P (c # cs) \<or> (\<exists>i \<le> length cs. P (drop i cs))"
    proof (cases i)
      case 0
      with i show ?thesis by simp
    next
      case (Suc k)
      with i have "k \<le> length cs \<and> P (drop k cs)" by simp
      then show ?thesis by blast
    qed
  next
    assume "P (c # cs) \<or> (\<exists>i \<le> length cs. P (drop i cs))"
    then show "\<exists>i \<le> length (c # cs). P (drop i (c # cs))"
    proof
      assume "P (c # cs)"
      then have "0 \<le> length (c # cs) \<and> P (drop 0 (c # cs))" by simp
      then show ?thesis by blast
    next
      assume "\<exists>i \<le> length cs. P (drop i cs)"
      then obtain i where "i \<le> length cs" "P (drop i cs)" by blast
      then have "Suc i \<le> length (c # cs) \<and> P (drop (Suc i) (c # cs))" by simp
      then show ?thesis by blast
    qed
  qed
  with Cons.IH show ?case by simp
qed

lemma runAt_drop:
  "runAt n (drop i s) \<longleftrightarrow>
     i < length s \<and> \<not> isLineTerminator (s ! i) \<and> i + Suc n \<le> length s \<and>
     (\<forall>j<n. s ! (Suc i + j) = s ! i)"
proof (cases "i < length s")
  case False
  then show ?thesis by simp
next
  case True
  then have d: "drop i s = s ! i # drop (Suc i) s"
    by (simp add: Cons_nth_drop_Suc)
  have "\<And>j. j < n \<Longrightarrow> n \<le> length s - Suc i \<Longrightarrow> drop (Suc i) s ! j = s ! (Suc i + j)"
    by simp
  then show ?thesis
    using True by (auto simp: d takeWhile_length_ge)
qed

lemma hasRepeatedChars_iff: "hasRepeatedChars n s \<longleftrightarrow> spec_hasRun (Suc n) s"
proof
  assume "hasRepeatedChars n s"
  then have "\<exists>i \<le> length s. runAt n (drop i s)"
    by (simp only: hasRepeatedChars_def hasMatch_iff)
  then obtain i where "runAt n (drop i s)" by blast
  then have "i < length s \<and> \<not> isLineTerminator (s ! i) \<and> i + Suc n \<le> length s \<and>
      (\<forall>j<n. s ! (Suc i + j) = s ! i)"
    using runAt_drop [of n i s] by blast
  then have i: "i < length s" "\<not> isLineTerminator (s ! i)" "i + Suc n \<le> length s"
      "\<forall>j<n. s ! (Suc i + j) = s ! i"
    by blast+
  have "\<forall>j \<in> {i ..< i + Suc n}. s ! j = s ! i"
  proof
    fix j assume j: "j \<in> {i ..< i + Suc n}"
    show "s ! j = s ! i"
    proof (cases "j = i")
      case True then show ?thesis by simp
    next
      case False
      with j have "j - Suc i < n" and "j = Suc i + (j - Suc i)" by auto
      then show ?thesis using i(4) by metis
    qed
  qed
  moreover have "i \<in> {0 ..< length s}" using i(1) by simp
  ultimately show "spec_hasRun (Suc n) s"
    unfolding spec_hasRun_def using i(2,3) by blast
next
  assume "spec_hasRun (Suc n) s"
  then obtain i where i: "i \<in> {0 ..< length s}" "i + Suc n \<le> length s" "\<not> isLineTerminator (s ! i)"
      and eq: "\<forall>j \<in> {i ..< i + Suc n}. s ! j = s ! i"
    unfolding spec_hasRun_def by blast
  have "\<forall>j<n. s ! (Suc i + j) = s ! i"
  proof (intro allI impI)
    fix j assume "j < n"
    then have "Suc i + j \<in> {i ..< i + Suc n}" by simp
    with eq show "s ! (Suc i + j) = s ! i" by blast
  qed
  moreover have "i < length s" using i(1) by simp
  ultimately have "runAt n (drop i s)"
    using i(2,3) runAt_drop [of n i s] by blast
  moreover have "i \<le> length s" using i(1) by simp
  ultimately have "\<exists>i \<le> length s. runAt n (drop i s)" by blast
  then show "hasRepeatedChars n s"
    by (simp only: hasRepeatedChars_def hasMatch_iff)
qed

text \<open>
  C6, as stated, fails for predictions: the completion \<^verbatim>\<open>"bring zzzz to everyone"\<close>
  holds a run of four \<^verbatim>\<open>z\<close> and passes \<^verbatim>\<open>isValid\<close>, whose pattern
  \<^verbatim>\<open>/(.)\1{4,}/\<close> needs five.
\<close>

theorem isValid_run_of_four_counterexample:
  "spec_hasRun 4 (lit ''bring zzzz to everyone'') \<and>
   completionOf (lit ''bring zzzz to everyone'') = lit ''bring zzzz to everyone'' \<and>
   isValid asciiRuntime (lit ''bring zzzz to everyone'')"
proof -
  have "spec_hasRun 4 (lit ''bring zzzz to everyone'')" by code_simp
  moreover have "completionOf (lit ''bring zzzz to everyone'') = lit ''bring zzzz to everyone''"
    by code_simp
  moreover have "isValid asciiRuntime (lit ''bring zzzz to everyone'')" by code_simp
  ultimately show ?thesis by blast
qed

text \<open>
  C6 (amended): a poem response is rejected when one of its lines that survive the
  cleaning and the line filter holds a run of the same code unit, no line
  terminator, four or more times in a row; a prediction completion is rejected
  when it holds such a run of five or more.
\<close>

theorem repeated_characters_rejected:
  "((\<exists>l \<in> set (poemLines response). spec_hasRun 4 l) \<longrightarrow> poemAttempt response = None) \<and>
   (spec_hasRun 5 completion \<longrightarrow> \<not> isValid rt completion)"
proof (intro conjI impI)
  assume "\<exists>l \<in> set (poemLines response). spec_hasRun 4 l"
  then obtain l where "l \<in> set (poemLines response)" and "spec_hasRun (Suc 3) l"
    by (auto simp: numeral_eq_Suc)
  then have "hasGibberish (poemLines response)"
    unfolding hasGibberish_def list_ex_iff using hasRepeatedChars_iff [of 3 l] by blast
  then show "poemAttempt response = None"
    by (simp add: poemAttempt_def Let_def)
next
  assume "spec_hasRun 5 completion"
  then have "spec_hasRun (Suc 4) completion" by (simp add: numeral_eq_Suc)
  then have "hasRepeatedChars 4 completion" by (simp only: hasRepeatedChars_iff)
  then show "\<not> isValid rt completion"
    by (simp add: isValid_def Let_def)
qed

theorem repeated_characters_rejected_witness:
  "(\<exists>l \<in> set (poemLines (lit ''first line here'' @ [0x0A] @ lit ''sleepy zzzz sounds'' @ [0x0A] @
        lit ''third line there'')). spec_hasRun 4 l) \<and>
   poemAttempt (lit ''first line here'' @ [0x0A] @ lit ''sleepy zzzz sounds'' @ [0x0A] @
        lit ''third line there'') = None \<and>
   spec_hasRun 5 (lit ''bring zzzzz to everyone'') \<and>
   \<not> isValid asciiRuntime (lit ''bring zzzzz to everyone'')"
proof -
  let ?r = "lit ''first line here'' @ [0x0A] @ lit ''sleepy zzzz sounds'' @ [0x0A] @
        lit ''third line there''"
  let ?ls = "[lit ''first line here'', lit ''sleepy zzzz sounds'', lit ''third line there'']"
  have "trim ?r = ?r" by code_simp
  moreover have "splitOn 0x0A ?r = ?ls" by code_simp
  moreover have "map trim ?ls = ?ls" by code_simp
  moreover have "map stripLinePrefix ?ls = ?ls" by code_simp
  moreover have "filter keepLine ?ls = ?ls" by code_simp
  ultimately have "poemLines ?r = ?ls" by (simp only: poemLines_def)
  moreover have "spec_hasRun 4 (lit ''sleepy zzzz sounds'')" by code_simp
  ultimately have h1: "\<exists>l \<in> set (poemLines ?r). spec_hasRun 4 l" by simp
  have h2: "spec_hasRun 5 (lit ''bring zzzzz to everyone'')" by code_simp
  from repeated_characters_rejected [of ?r "lit ''bring zzzzz to everyone''" asciiRuntime] h1 h2
  show ?thesis by blast
qed

section \<open>Properties of the output normaliser\<close>








section \<open>Properties of the fallback synthesiser\<close>




lemma showNat_nonempty: "showNat n \<noteq> []"
  by (subst showNat.simps) simp








section \<open>Properties of the retry loops\<close>

lemma loadModel_ready: "ready w \<Longrightarrow> loadModel b w = Some (Inr (generator w), w)"
  by (simp add: loadModel_def ready_def)

lemma loadModel_idle:
  "\<not> modelLoading w \<Longrightarrow> \<not> ready w \<Longrightarrow>
   loadModel b w =
     (case pipeline b (pipelineCalls w) of
        Some h \<Rightarrow> Some (Inr (Some h),
                   w\<lparr> modelLoading := False, pipelineCalls := pipelineCalls w + 1,
                      generator := Some h, modelReady := True \<rparr>)
      | None \<Rightarrow> Some (Inl LoadError,
                   w\<lparr> modelLoading := False, pipelineCalls := pipelineCalls w + 1 \<rparr>))"
  by (auto simp: loadModel_def ready_def Let_def split: option.split)

lemma loadModel_succeeds:
  assumes "\<not> modelLoading w" and "ready w \<or> pipeline b (pipelineCalls w) \<noteq> None"
  shows "\<exists>g w1. loadModel b w = Some (Inr g, w1) \<and> ready w1 \<and> genCalls w1 = genCalls w"
proof (cases "ready w")
  case True
  then show ?thesis by (simp add: loadModel_ready)
next
  case False
  with assms obtain h where "pipeline b (pipelineCalls w) = Some h" by auto
  with False assms(1) show ?thesis
    by (simp add: loadModel_idle ready_def)
qed


lemma generate_ready:
  "ready w \<Longrightarrow>
   generate b prompt k w =
     Some (attemptResult b (genCalls w) prompt k, w\<lparr> genCalls := genCalls w + 1 \<rparr>)"
  by (auto simp: generate_def loadModel_ready ready_def attemptResult_def Let_def
      split: option.split sum.split)

lemma ready_genCalls [simp]: "ready (w\<lparr> genCalls := n \<rparr>) = ready w"
  by (simp add: ready_def)


lemma predictionLoop_no_valid:
  assumes "noValidPrediction rt b"
  shows "ready w \<Longrightarrow> attempt \<le> MAX_RETRIES + 1 \<Longrightarrow>
    predictionLoop rt b start attempt w =
      Some (None, w\<lparr> genCalls := genCalls w + (MAX_RETRIES + 1 - attempt) \<rparr>)"
proof (induction "MAX_RETRIES + 1 - attempt" arbitrary: attempt w)
  case 0
  then have "\<not> attempt \<le> MAX_RETRIES" by simp
  then show ?case using 0 by (simp add: predictionLoop.simps [of rt b start attempt w])
next
  case (Suc d)
  then have le: "attempt \<le> MAX_RETRIES" by simp
  let ?w = "w\<lparr> genCalls := genCalls w + 1 \<rparr>"
  have "predictionLoop rt b start attempt w = predictionLoop rt b start (attempt + 1) ?w"
  proof (cases "attemptResult b (genCalls w) (predictionPrompt start) 20")
    case (Inl e)
    with le Suc.prems(1) show ?thesis
      by (simp add: predictionLoop.simps [of rt b start attempt w] generate_ready)
  next
    case (Inr resp)
    with assms have "\<not> isValid rt (completionOf resp)"
      unfolding noValidPrediction_def by blast
    with Inr le Suc.prems(1) show ?thesis
      by (simp add: predictionLoop.simps [of rt b start attempt w] generate_ready)
  qed
  also have "\<dots> = Some (None, ?w\<lparr> genCalls := genCalls ?w + (MAX_RETRIES + 1 - (attempt + 1)) \<rparr>)"
    using Suc.hyps(2) Suc.prems le by (intro Suc.hyps(1)) simp_all
  also have "\<dots> = Some (None, w\<lparr> genCalls := genCalls w + (MAX_RETRIES + 1 - attempt) \<rparr>)"
    using le by simp
  finally show ?case .
qed

lemma predictionsLoop_no_valid:
  assumes "noValidPrediction rt b"
  shows "ready w \<Longrightarrow>
    predictionsLoop rt b units acc w =
      Some (acc @ map snd units, w\<lparr> genCalls := genCalls w + MAX_RETRIES * length units \<rparr>)"
proof (induction units arbitrary: acc w)
  case Nil
  show ?case by simp
next
  case (Cons u units)
  obtain start fallback where u: "u = (start, fallback)" by (cases u)
  let ?w = "w\<lparr> genCalls := genCalls w + MAX_RETRIES \<rparr>"
  have "predictionLoop rt b start 1 w = Some (None, ?w)"
    using predictionLoop_no_valid [OF assms Cons.prems, of 1 start]
    by (simp add: MAX_RETRIES_def)
  then have "predictionsLoop rt b (u # units) acc w = predictionsLoop rt b units (acc @ [fallback]) ?w"
    by (simp add: u)
  also have "\<dots> = Some ((acc @ [fallback]) @ map snd units,
      ?w\<lparr> genCalls := genCalls ?w + MAX_RETRIES * length units \<rparr>)"
    using Cons.prems by (intro Cons.IH) simp
  finally show ?case by (simp add: u add.assoc)
qed


lemma pollModelLoading_returns:
  assumes "pollModelLoading w = Some w'"
  shows "\<not> modelLoading w \<and> w' = w"
  by (rule pollModelLoading.raw_induct [OF _ assms]) (auto split: if_splits)

lemma loadModel_returns:
  assumes "loadModel b w = Some (Inr g, w1)"
  shows "ready w1 \<and> genCalls w1 = genCalls w"
proof (cases "ready w")
  case True
  with assms show ?thesis by (simp add: loadModel_ready)
next
  case nr: False
  show ?thesis
  proof (cases "modelLoading w")
    case True
    with nr assms obtain w' where "pollModelLoading w = Some w'"
      by (auto simp: loadModel_def ready_def split: option.splits)
    with True show ?thesis using pollModelLoading_returns by blast
  next
    case False
    show ?thesis
    proof (cases "pipeline b (pipelineCalls w)")
      case None
      with False nr assms show ?thesis by (simp add: loadModel_idle)
    next
      case (Some h)
      define w2 where "w2 = w\<lparr> modelLoading := False, pipelineCalls := pipelineCalls w + 1,
             generator := Some h, modelReady := True \<rparr>"
      have "Some (Inr g, w1) = loadModel b w" using assms by (rule sym)
      also have "\<dots> = Some (Inr (Some h), w2)"
        using False nr Some by (simp add: loadModel_idle w2_def)
      finally have "w1 = w2" by simp
      then show ?thesis by (simp add: ready_def w2_def)
    qed
  qed
qed

lemma predictionLoop_result:
  "ready w \<Longrightarrow>
   \<exists>r k. predictionLoop rt b start attempt w = Some (r, w\<lparr> genCalls := genCalls w + k \<rparr>) \<and>
     (\<forall>text. r = Some text \<longrightarrow>
        (\<exists>n resp. attemptResult b n (predictionPrompt start) 20 = Inr resp \<and>
           isValid rt (completionOf resp) \<and> text = start @ lit '' '' @ completionOf resp))"
proof (induction "MAX_RETRIES + 1 - attempt" arbitrary: attempt w)
  case 0
  then have "\<not> attempt \<le> MAX_RETRIES" by simp
  then have "predictionLoop rt b start attempt w = Some (None, w\<lparr> genCalls := genCalls w + 0 \<rparr>)"
    by (simp add: predictionLoop.simps [of rt b start attempt w])
  then show ?case by blast
next
  case (Suc d)
  then have le: "attempt \<le> MAX_RETRIES" by simp
  let ?w = "w\<lparr> genCalls := genCalls w + 1 \<rparr>"
  let ?res = "attemptResult b (genCalls w) (predictionPrompt start) 20"
  have rec: "\<exists>r k. predictionLoop rt b start (attempt + 1) ?w =
        Some (r, w\<lparr> genCalls := genCalls w + k \<rparr>) \<and>
     (\<forall>text. r = Some text \<longrightarrow>
        (\<exists>n resp. attemptResult b n (predictionPrompt start) 20 = Inr resp \<and>
           isValid rt (completionOf resp) \<and> text = start @ lit '' '' @ completionOf resp))"
  proof -
    have "d = MAX_RETRIES + 1 - (attempt + 1)" using Suc.hyps(2) by simp
    moreover have "ready ?w" using Suc.prems by simp
    ultimately obtain r k where
      "predictionLoop rt b start (attempt + 1) ?w = Some (r, ?w\<lparr> genCalls := genCalls ?w + k \<rparr>)"
      and t: "\<forall>text. r = Some text \<longrightarrow>
        (\<exists>n resp. attemptResult b n (predictionPrompt start) 20 = Inr resp \<and>
           isValid rt (completionOf resp) \<and> text = start @ lit '' '' @ completionOf resp)"
      using Suc.hyps(1) [of "attempt + 1" ?w] by blast
    then have "predictionLoop rt b start (attempt + 1) ?w =
        Some (r, w\<lparr> genCalls := genCalls w + (1 + k) \<rparr>)"
      by (simp add: add.assoc)
    with t show ?thesis by blast
  qed
  show ?case
  proof (cases ?res)
    case (Inl e)
    then have "predictionLoop rt b start attempt w = predictionLoop rt b start (attempt + 1) ?w"
      using le Suc.prems by (simp add: predictionLoop.simps [of rt b start attempt w] generate_ready)
    with rec show ?thesis by simp
  next
    case (Inr resp)
    show ?thesis
    proof (cases "isValid rt (completionOf resp)")
      case True
      with Inr have "predictionLoop rt b start attempt w =
          Some (Some (start @ lit '' '' @ completionOf resp), w\<lparr> genCalls := genCalls w + 1 \<rparr>)"
        using le Suc.prems by (simp add: predictionLoop.simps [of rt b start attempt w] generate_ready)
      with Inr True show ?thesis by blast
    next
      case False
      with Inr have "predictionLoop rt b start attempt w = predictionLoop rt b start (attempt + 1) ?w"
        using le Suc.prems by (simp add: predictionLoop.simps [of rt b start attempt w] generate_ready)
      with rec show ?thesis by simp
    qed
  qed
qed

lemma predictionsLoop_result:
  "ready w \<Longrightarrow>
   \<exists>ps k. predictionsLoop rt b units acc w = Some (acc @ ps, w\<lparr> genCalls := genCalls w + k \<rparr>) \<and>
     list_all2 (\<lambda>u res. res = snd u \<or>
        (\<exists>n resp. attemptResult b n (predictionPrompt (fst u)) 20 = Inr resp \<and>
           isValid rt (completionOf resp) \<and> res = fst u @ lit '' '' @ completionOf resp)) units ps"
proof (induction units arbitrary: acc w)
  case Nil
  have "predictionsLoop rt b [] acc w = Some (acc @ [], w\<lparr> genCalls := genCalls w + 0 \<rparr>)" by simp
  then show ?case using list_all2_Nil by blast
next
  case (Cons u units)
  define R where "R = (\<lambda>u res. res = snd u \<or>
        (\<exists>n resp. attemptResult b n (predictionPrompt (fst u)) 20 = Inr resp \<and>
           isValid rt (completionOf resp) \<and> res = fst u @ lit '' '' @ completionOf resp))"
  obtain start fallback where u: "u = (start, fallback)" by (cases u)
  from predictionLoop_result [OF Cons.prems, of rt b start 1]
  obtain r k where l: "predictionLoop rt b start 1 w = Some (r, w\<lparr> genCalls := genCalls w + k \<rparr>)"
    and t: "\<forall>res. r = Some res \<longrightarrow>
        (\<exists>n resp. attemptResult b n (predictionPrompt start) 20 = Inr resp \<and>
           isValid rt (completionOf resp) \<and> res = start @ lit '' '' @ completionOf resp)"
    by blast
  define w1 where "w1 = w\<lparr> genCalls := genCalls w + k \<rparr>"
  define x where "x = (case r of None \<Rightarrow> fallback | Some res \<Rightarrow> res)"
  have rx: "R u x"
  proof (cases r)
    case None
    then show ?thesis by (simp add: R_def u x_def)
  next
    case (Some res)
    with t show ?thesis unfolding R_def u x_def by simp
  qed
  have "ready w1" using Cons.prems by (simp add: w1_def)
  from Cons.IH [OF this, of "acc @ [x]"]
  obtain ps k' where ih: "predictionsLoop rt b units (acc @ [x]) w1 =
        Some ((acc @ [x]) @ ps, w1\<lparr> genCalls := genCalls w1 + k' \<rparr>)"
    and r2: "list_all2 R units ps"
    unfolding R_def by blast
  have "predictionsLoop rt b (u # units) acc w = predictionsLoop rt b units (acc @ [x]) w1"
    using l by (cases r) (simp_all add: u x_def w1_def)
  also note ih
  also have "Some ((acc @ [x]) @ ps, w1\<lparr> genCalls := genCalls w1 + k' \<rparr>) =
      Some (acc @ (x # ps), w\<lparr> genCalls := genCalls w + (k + k') \<rparr>)"
    by (simp add: w1_def add.assoc)
  finally have "predictionsLoop rt b (u # units) acc w =
      Some (acc @ (x # ps), w\<lparr> genCalls := genCalls w + (k + k') \<rparr>)" .
  moreover have "list_all2 R (u # units) (x # ps)" using rx r2 by simp
  ultimately show ?case unfolding R_def by blast
qed




lemma predictionUnits_shape:
  "length (predictionUnits p) = 4 \<and> (\<forall>u \<in> set (predictionUnits p). snd u \<noteq> [])"
  by (simp add: predictionUnits_def Let_def lit_def)

section \<open>The concrete backends\<close>

lemma readOutput_generated_text:
  "readOutput (JArr [JObj [(lit ''generated_text'', JStr s)]]) = Inr s"
  by (simp add: readOutput_def index0_def optProp_def getProp_def normalizeOutput_def truthy_def)


lemma attemptResult_rejecting: "attemptResult rejectingBackend n prompt k = Inl BackendError"
  by (simp add: attemptResult_def rejectingBackend_def)







lemma rejecting_noValidPrediction: "noValidPrediction rt rejectingBackend"
  by (simp add: noValidPrediction_def attemptResult_rejecting)

lemma initialWorld_idle: "\<not> modelLoading initialWorld \<and> \<not> ready initialWorld"
  by (simp add: initialWorld_def ready_def)

lemma loadModel_initial_ok:
  "pipeline b 0 = Some h \<Longrightarrow>
   loadModel b initialWorld =
     Some (Inr (Some h),
           \<lparr> generator = Some h, modelLoading = False, modelReady = True,
             pipelineCalls = 1, genCalls = 0 \<rparr>)"
  by (simp add: loadModel_def initialWorld_def)


section \<open>Failure paths of the two entry points\<close>







section \<open>Exhausting the retries\<close>


lemma generatePredictions_exhausted:
  assumes "\<not> modelLoading w" and "ready w \<or> pipeline b (pipelineCalls w) \<noteq> None"
    and "noValidPrediction rt b"
  shows "\<exists>w'. generatePredictions rt b p w = Some (Inr (map snd (predictionUnits p)), w') \<and>
           genCalls w' = genCalls w + 4 * 5"
proof -
  from loadModel_succeeds [OF assms(1,2)] obtain g w1 where
    l: "loadModel b w = Some (Inr g, w1)" and r: "ready w1" and c: "genCalls w1 = genCalls w"
    by blast
  have "predictionsLoop rt b (predictionUnits p) [] w1 =
      Some ([] @ map snd (predictionUnits p),
            w1\<lparr> genCalls := genCalls w1 + MAX_RETRIES * length (predictionUnits p) \<rparr>)"
    using r by (rule predictionsLoop_no_valid [OF assms(3)])
  with l c show ?thesis
    using predictionUnits_shape [of p] by (simp add: generatePredictions_def MAX_RETRIES_def)
qed





section \<open>A rejection of the generator inside the retry loops\<close>

lemma poemLoop_rejected:
  assumes "ready w" and "attempt \<le> MAX_RETRIES"
    and "attemptResult b (genCalls w) (poemPrompt rt p) 40 = Inl e"
  shows "poemLoop rt b p attempt w = Some (Inl e, w\<lparr> genCalls := genCalls w + 1 \<rparr>)"
  using assms by (simp add: poemLoop.simps [of rt b p attempt w] generate_ready)

text \<open>
  C3 (the code at the failing input): with a backend whose generator rejects,
  the loop of \<^verbatim>\<open>generatePredictions\<close> catches the rejection of every attempt and
  the four units take their fallback, whereas \<^verbatim>\<open>generatePoem\<close>, whose loop has no
  \<^verbatim>\<open>try\<close>, rejects with the error of the first attempt.
\<close>

theorem generatePoem_rejection_escapes:
  "map_option fst (generatePoem rt rejectingBackend p initialWorld) = Some (Inl BackendError) \<and>
   map_option fst (generatePredictions rt rejectingBackend p initialWorld) =
     Some (Inr (map snd (predictionUnits p)))"
proof -
  have j: "pipeline rejectingBackend (pipelineCalls initialWorld) \<noteq> None"
    by (simp add: rejectingBackend_def)
  have l: "loadModel rejectingBackend initialWorld =
     Some (Inr (Some 0),
           \<lparr> generator = Some 0, modelLoading = False, modelReady = True,
             pipelineCalls = 1, genCalls = 0 \<rparr>)"
    by (rule loadModel_initial_ok) (simp add: rejectingBackend_def)
  have "ready \<lparr> generator = Some 0, modelLoading = False, modelReady = True,
             pipelineCalls = 1, genCalls = 0 \<rparr>"
    by (simp add: ready_def)
  moreover have "1 \<le> MAX_RETRIES" by (simp add: MAX_RETRIES_def)
  ultimately have "map_option fst (poemLoop rt rejectingBackend p 1
      \<lparr> generator = Some 0, modelLoading = False, modelReady = True,
        pipelineCalls = 1, genCalls = 0 \<rparr>) = Some (Inl BackendError)"
    using poemLoop_rejected [OF _ _ attemptResult_rejecting, of _ 1 rt p] by simp
  with l have a: "map_option fst (generatePoem rt rejectingBackend p initialWorld) =
      Some (Inl BackendError)"
    by (simp add: generatePoem_def)
  from generatePredictions_exhausted [OF initialWorld_idle [THEN conjunct1] disjI2 [OF j]
      rejecting_noValidPrediction, of rt p]
  have "map_option fst (generatePredictions rt rejectingBackend p initialWorld) =
     Some (Inr (map snd (predictionUnits p)))"
    by auto
  with a show ?thesis by blast
qed

section \<open>The shape of a generated prediction\<close>

lemma isValid_length: "isValid rt c \<Longrightarrow> 5 \<le> length c \<and> length c \<le> 80"
  by (simp add: isValid_def Let_def)

lemma predictionLoop_valid:
  assumes "ready w" and "attempt \<le> MAX_RETRIES"
    and "attemptResult b (genCalls w) (predictionPrompt start) 20 = Inr resp"
    and "isValid rt (completionOf resp)"
  shows "predictionLoop rt b start attempt w =
    Some (Some (start @ lit '' '' @ completionOf resp), w\<lparr> genCalls := genCalls w + 1 \<rparr>)"
  using assms
  by (simp add: predictionLoop.simps [of rt b start attempt w] generate_ready)

text \<open>
  C10: every string that \<^verbatim>\<open>generatePredictions\<close> returns is, unit by unit, either
  the fallback of the unit or the stem of the unit, one space, and a completion.
  The completion is the first line of the trimmed, normalised response of some
  attempt, trimmed, with a leading arrow removed; it is what \<^verbatim>\<open>isValid\<close> accepted,
  so the bound of 5 to 80 characters holds for the completion, and the returned
  string is longer by the stem and the space.
\<close>

theorem prediction_shape:
  assumes "generatePredictions rt b p w = Some (Inr ps, w')"
  shows "list_all2
           (\<lambda>u res. res = snd u \<or>
              (\<exists>n resp. attemptResult b n (predictionPrompt (fst u)) 20 = Inr resp \<and>
                 res = fst u @ lit '' '' @ completionOf resp \<and>
                 isValid rt (completionOf resp) \<and>
                 5 \<le> length (completionOf resp) \<and> length (completionOf resp) \<le> 80 \<and>
                 length res = length (fst u) + 1 + length (completionOf resp)))
           (predictionUnits p) ps"
proof -
  from assms obtain g w1 where l: "loadModel b w = Some (Inr g, w1)"
    by (auto simp: generatePredictions_def split: option.splits sum.splits prod.splits)
  then have r: "ready w1" using loadModel_returns by blast
  from predictionsLoop_result [OF r, of rt b "predictionUnits p" "[]"]
  obtain qs k where
    pl: "predictionsLoop rt b (predictionUnits p) [] w1 =
           Some (qs, w1\<lparr> genCalls := genCalls w1 + k \<rparr>)"
    and rel: "list_all2 (\<lambda>u res. res = snd u \<or>
        (\<exists>n resp. attemptResult b n (predictionPrompt (fst u)) 20 = Inr resp \<and>
           isValid rt (completionOf resp) \<and> res = fst u @ lit '' '' @ completionOf resp))
        (predictionUnits p) qs"
    by auto
  from l pl assms have "ps = qs" by (simp add: generatePredictions_def)
  moreover have step: "\<And>u res. res = snd u \<or>
        (\<exists>n resp. attemptResult b n (predictionPrompt (fst u)) 20 = Inr resp \<and>
           isValid rt (completionOf resp) \<and> res = fst u @ lit '' '' @ completionOf resp) \<Longrightarrow>
      res = snd u \<or>
        (\<exists>n resp. attemptResult b n (predictionPrompt (fst u)) 20 = Inr resp \<and>
           res = fst u @ lit '' '' @ completionOf resp \<and>
           isValid rt (completionOf resp) \<and>
           5 \<le> length (completionOf resp) \<and> length (completionOf resp) \<le> 80 \<and>
           length res = length (fst u) + 1 + length (completionOf resp))"
  proof -
    fix u res
    assume "res = snd u \<or>
        (\<exists>n resp. attemptResult b n (predictionPrompt (fst u)) 20 = Inr resp \<and>
           isValid rt (completionOf resp) \<and> res = fst u @ lit '' '' @ completionOf resp)"
    then show "res = snd u \<or>
        (\<exists>n resp. attemptResult b n (predictionPrompt (fst u)) 20 = Inr resp \<and>
           res = fst u @ lit '' '' @ completionOf resp \<and>
           isValid rt (completionOf resp) \<and>
           5 \<le> length (completionOf resp) \<and> length (completionOf resp) \<le> 80 \<and>
           length res = length (fst u) + 1 + length (completionOf resp))"
    proof
      assume "res = snd u"
      then show ?thesis by blast
    next
      assume "\<exists>n resp. attemptResult b n (predictionPrompt (fst u)) 20 = Inr resp \<and>
           isValid rt (completionOf resp) \<and> res = fst u @ lit '' '' @ completionOf resp"
      then obtain n resp where x: "attemptResult b n (predictionPrompt (fst u)) 20 = Inr resp"
        "isValid rt (completionOf resp)" "res = fst u @ lit '' '' @ completionOf resp"
        by blast
      from x(2) have "5 \<le> length (completionOf resp) \<and> length (completionOf resp) \<le> 80"
        by (rule isValid_length)
      moreover from x(3) have "length res = length (fst u) + 1 + length (completionOf resp)"
        by (simp add: lit_def)
      ultimately show ?thesis using x by blast
    qed
  qed
  ultimately show ?thesis using rel by (simp only:) (rule list_all2_mono, assumption, rule step)
qed

lemma completionOf_sage:
  "completionOf sageResponse =
     lit ''unlock new creative possibilities and bring fresh energy to every single project''"
  by code_simp

lemma isValid_sage:
  "isValid asciiRuntime
     (lit ''unlock new creative possibilities and bring fresh energy to every single project'')"
  by code_simp

lemma attemptResult_sage: "attemptResult sageBackend n prompt k = Inr sageResponse"
  by (simp add: attemptResult_def sageBackend_def readOutput_generated_text)

lemma predictionLoop_sage:
  "ready w \<Longrightarrow>
   predictionLoop asciiRuntime sageBackend start 1 w =
     Some (Some (start @ lit '' '' @
             lit ''unlock new creative possibilities and bring fresh energy to every single project''),
           w\<lparr> genCalls := genCalls w + 1 \<rparr>)"
  using predictionLoop_valid [of w 1 sageBackend start sageResponse asciiRuntime]
  by (simp add: attemptResult_sage completionOf_sage isValid_sage MAX_RETRIES_def)

lemma predictionUnits_empty_stems:
  "predictionUnits emptyProfile =
     [(lit ''In 2026, your learning skills will'',
       lit ''Your learning obsession will reach new heights''),
      (lit ''As a Explorer, you'' @ [0x27] @ lit ''ll discover'',
       lit ''As a true Explorer, you'' @ [0x27] @ lit ''ll discover 3 new use cases''),
      (lit ''Your favorite word '' @ [0x22] @ lit ''ideas'' @ [0x22] @ lit '' will'',
       [0x22] @ lit ''ideas'' @ [0x22] @ lit '' will become your catchphrase''),
      (lit ''Next year in creating, you'' @ [0x27] @ lit ''ll'',
       lit ''Your creating journey will surprise you'')]"
  by (simp add: predictionUnits_def Let_def orElse_def archetypeName_def themeTitle_def
      topPhrase_def emptyProfile_def lit_def)

lemma predictionsLoop_sage:
  "ready w \<Longrightarrow>
   predictionsLoop asciiRuntime sageBackend units acc w =
     Some (acc @ map (\<lambda>u. fst u @ lit '' '' @
                  lit ''unlock new creative possibilities and bring fresh energy to every single project'')
                units,
           w\<lparr> genCalls := genCalls w + length units \<rparr>)"
proof (induction units arbitrary: acc w)
  case Nil
  show ?case by simp
next
  case (Cons u units)
  obtain start fallback where u: "u = (start, fallback)" by (cases u)
  let ?c = "lit ''unlock new creative possibilities and bring fresh energy to every single project''"
  let ?w = "w\<lparr> genCalls := genCalls w + 1 \<rparr>"
  have "predictionLoop asciiRuntime sageBackend start 1 w = Some (Some (start @ lit '' '' @ ?c), ?w)"
    using Cons.prems by (rule predictionLoop_sage)
  then have "predictionsLoop asciiRuntime sageBackend (u # units) acc w =
      predictionsLoop asciiRuntime sageBackend units (acc @ [start @ lit '' '' @ ?c]) ?w"
    by (simp add: u)
  also have "\<dots> = Some ((acc @ [start @ lit '' '' @ ?c]) @ map (\<lambda>u. fst u @ lit '' '' @ ?c) units,
      ?w\<lparr> genCalls := genCalls ?w + length units \<rparr>)"
    using Cons.prems by (intro Cons.IH) simp
  finally show ?case by (simp add: u)
qed

lemma generatePredictions_sage:
  "generatePredictions asciiRuntime sageBackend emptyProfile initialWorld =
     Some (Inr (map (\<lambda>u. fst u @ lit '' '' @
                  lit ''unlock new creative possibilities and bring fresh energy to every single project'')
                (predictionUnits emptyProfile)),
           \<lparr> generator = Some 0, modelLoading = False, modelReady = True,
             pipelineCalls = 1, genCalls = 4 \<rparr>)"
proof -
  let ?w1 = "\<lparr> generator = Some 0, modelLoading = False, modelReady = True,
             pipelineCalls = 1, genCalls = 0 \<rparr>"
  have l: "loadModel sageBackend initialWorld = Some (Inr (Some 0), ?w1)"
    by (rule loadModel_initial_ok) (simp add: sageBackend_def)
  have r: "ready ?w1" by (simp add: ready_def)
  from predictionsLoop_sage [OF r, of "predictionUnits emptyProfile" "[]"] l
  show ?thesis
    using predictionUnits_shape [of emptyProfile] by (simp add: generatePredictions_def)
qed

theorem prediction_shape_witness:
  "generatePredictions asciiRuntime sageBackend emptyProfile initialWorld =
     Some (Inr (map (\<lambda>u. fst u @ lit '' '' @
                  lit ''unlock new creative possibilities and bring fresh energy to every single project'')
                (predictionUnits emptyProfile)),
           \<lparr> generator = Some 0, modelLoading = False, modelReady = True,
             pipelineCalls = 1, genCalls = 4 \<rparr>) \<and>
   list_all2
     (\<lambda>u res. res = snd u \<or>
        (\<exists>n resp. attemptResult sageBackend n (predictionPrompt (fst u)) 20 = Inr resp \<and>
           res = fst u @ lit '' '' @ completionOf resp \<and>
           isValid asciiRuntime (completionOf resp) \<and>
           5 \<le> length (completionOf resp) \<and> length (completionOf resp) \<le> 80 \<and>
           length res = length (fst u) + 1 + length (completionOf resp)))
     (predictionUnits emptyProfile)
     (map (\<lambda>u. fst u @ lit '' '' @
             lit ''unlock new creative possibilities and bring fresh energy to every single project'')
          (predictionUnits emptyProfile)) \<and>
   length (lit ''In 2026, your learning skills will'' @ lit '' '' @
      lit ''unlock new creative possibilities and bring fresh energy to every single project'') = 115"
proof -
  note g = generatePredictions_sage
  from prediction_shape [OF g] g show ?thesis by (simp add: lit_def)
qed

end
